theory Spec2Isabelle
  imports Complex_Main "HOL-Library.Char_ord" "HOL-Library.List_Lexorder" "HOL-Library.Multiset"
    "HOL-Library.Code_Target_Nat"
begin

section \<open>The similarity engine (src/similarity.py)\<close>

text \<open>
  Embeddings are numpy float vectors; they and the similarity scores are modelled as
  lists of reals, so the rounding of the similarity computation is not part of the model.
  A database record is the dictionary built in src/embed.py; the value \<open>None\<close> of an
  embedding field is \<open>None\<close> here.
\<close>

type_synonym vec = "real list"

record paper_record =
  author :: string
  paper :: string
  best_text_embedding :: "vec option"
  full_text_embedding :: "vec option"

text \<open>The only exception the engine can meet: the \<open>ValueError\<close> of the array checks.\<close>

datatype error = ValueError

text \<open>\<open>np.zeros(n)\<close>.\<close>

definition zeros :: "nat \<Rightarrow> vec" where
  "zeros n = replicate n 0"

text \<open>
  \<open>sklearn.metrics.pairwise.cosine_similarity([q], M)\<close>, flattened. Both arguments are
  normalised row by row, a row of norm zero being divided by one instead, and the result
  is the dot product of the normalised rows.
\<close>

definition dot :: "vec \<Rightarrow> vec \<Rightarrow> real" where
  "dot x y = sum_list (map2 (*) x y)"

definition row_norm :: "vec \<Rightarrow> real" where
  "row_norm x = sqrt (sum_list (map (\<lambda>v. v * v) x))"

definition normalize_vec :: "vec \<Rightarrow> vec" where
  "normalize_vec x = (let n = row_norm x in map (\<lambda>v. v / (if n = 0 then 1 else n)) x)"

text \<open>
  The array checks of \<open>cosine_similarity\<close> raise \<open>ValueError\<close> when the matrix is not
  two-dimensional (\<open>np.array([])\<close>, the matrix of an empty database, has one dimension; so
  has no rectangular shape a list of rows of different lengths), when it has no column, and
  when the query and the rows differ in length.
\<close>

definition cosine_similarity :: "vec \<Rightarrow> vec list \<Rightarrow> error + real list" where
  "cosine_similarity q M =
     (if M = [] then Inl ValueError
      else if \<exists>r \<in> set M. length r \<noteq> length (hd M) then Inl ValueError
      else if length q = 0 \<or> length (hd M) = 0 then Inl ValueError
      else if length q \<noteq> length (hd M) then Inl ValueError
      else Inr (map (\<lambda>r. dot (normalize_vec q) (normalize_vec r)) M))"

text \<open>
  The loop over the database (lines 28 to 41): one row per record in each matrix, a vector
  of zeros where the record's embedding is \<open>None\<close>. \<open>embedding_dim\<close> is the value of
  \<open>st_model.get_sentence_embedding_dimension()\<close>.
\<close>

definition db_best_text_matrix :: "nat \<Rightarrow> paper_record list \<Rightarrow> vec list" where
  "db_best_text_matrix embedding_dim database =
     map (\<lambda>r. case best_text_embedding r of Some v \<Rightarrow> v | None \<Rightarrow> zeros embedding_dim) database"

definition db_full_text_matrix :: "nat \<Rightarrow> paper_record list \<Rightarrow> vec list" where
  "db_full_text_matrix embedding_dim database =
     map (\<lambda>r. case full_text_embedding r of Some v \<Rightarrow> v | None \<Rightarrow> zeros embedding_dim) database"

definition score_A :: "vec \<Rightarrow> nat \<Rightarrow> paper_record list \<Rightarrow> error + real list" where
  "score_A query_best_vector embedding_dim database =
     cosine_similarity query_best_vector (db_best_text_matrix embedding_dim database)"

definition score_B :: "vec \<Rightarrow> nat \<Rightarrow> paper_record list \<Rightarrow> error + real list" where
  "score_B query_full_vector embedding_dim database =
     cosine_similarity query_full_vector (db_full_text_matrix embedding_dim database)"

text \<open>\<open>np.maximum(score_A, score_B)\<close>; an exception of either search propagates.\<close>

definition final_scores :: "vec \<Rightarrow> vec \<Rightarrow> nat \<Rightarrow> paper_record list \<Rightarrow> error + real list" where
  "final_scores query_best_vector query_full_vector embedding_dim database =
     (case score_A query_best_vector embedding_dim database of
        Inl e \<Rightarrow> Inl e
      | Inr sa \<Rightarrow>
          (case score_B query_full_vector embedding_dim database of
             Inl e \<Rightarrow> Inl e
           | Inr sb \<Rightarrow> Inr (map2 max sa sb)))"


text \<open>A row of the returned table: the columns author, mean, count and max.\<close>

record author_score =
  author_col :: string
  mean_col :: real
  count_col :: nat
  max_col :: real

text \<open>
  Two operations of pandas give results that the engine's code does not determine: the
  \<open>mean\<close> of a group is computed in float64, so it is the arithmetic mean only up to
  rounding, and \<open>sort_values\<close> uses a sort that is not stable, so the order of rows of equal
  key is the algorithm's. Both are parameters of the model.
\<close>

record pandas =
  sort_values :: "author_score list \<Rightarrow> author_score list"
  mean :: "real list \<Rightarrow> real"

text \<open>
  What \<open>sort_values(by='max', ascending=False)\<close> is known to do: it rearranges the rows into
  descending order of \<open>max\<close>.
\<close>

definition descending_sort :: "(author_score list \<Rightarrow> author_score list) \<Rightarrow> bool" where
  "descending_sort f \<longleftrightarrow>
     (\<forall>rows. mset (f rows) = mset rows \<and> sorted_wrt (\<lambda>r s. max_col s \<le> max_col r) (f rows))"

text \<open>The scores of one author's papers, in database order.\<close>

definition scores_of :: "string list \<Rightarrow> real list \<Rightarrow> string \<Rightarrow> real list" where
  "scores_of authors scores a = map snd (filter (\<lambda>p. fst p = a) (zip authors scores))"

text \<open>
  The two \<open>groupby('author')\<close> aggregations merged on the author (lines 64 to 66):
  one row per distinct author, the group keys in sorted order.
\<close>

definition author_scores ::
  "(real list \<Rightarrow> real) \<Rightarrow> string list \<Rightarrow> real list \<Rightarrow> author_score list" where
  "author_scores mean_of authors scores =
     map (\<lambda>a. let s = scores_of authors scores a in
            \<lparr>author_col = a, mean_col = mean_of s, count_col = length s, max_col = Max (set s)\<rparr>)
         (sort (remdups authors))"

text \<open>\<open>DataFrame.head(n)\<close> is \<open>iloc[:n]\<close>: a negative \<open>n\<close> drops the last \<open>|n|\<close> rows.\<close>

definition head :: "int \<Rightarrow> 'a list \<Rightarrow> 'a list" where
  "head n rows = (if 0 \<le> n then take (nat n) rows else take (length rows - nat (- n)) rows)"

definition find_similar_authors ::
  "pandas \<Rightarrow> vec \<Rightarrow> vec \<Rightarrow> nat \<Rightarrow> paper_record list \<Rightarrow> int \<Rightarrow> error + author_score list" where
  "find_similar_authors pd query_best_vector query_full_vector embedding_dim database top_k =
     (case final_scores query_best_vector query_full_vector embedding_dim database of
        Inl e \<Rightarrow> Inl e
      | Inr fs \<Rightarrow>
          Inr (head top_k (sort_values pd (author_scores (mean pd) (map author database) fs))))"

text \<open>
  The databases on which both searches return: at least one record, query vectors that are
  not empty, and in each matrix rows of the length of the query, the rows of zeros
  included. On every other database \<open>cosine_similarity\<close> raises.
\<close>

definition well_formed :: "vec \<Rightarrow> vec \<Rightarrow> nat \<Rightarrow> paper_record list \<Rightarrow> bool" where
  "well_formed qb qf d database \<longleftrightarrow>
     database \<noteq> [] \<and> qb \<noteq> [] \<and> qf \<noteq> [] \<and>
     (\<forall>r \<in> set (db_best_text_matrix d database). length r = length qb) \<and>
     (\<forall>r \<in> set (db_full_text_matrix d database). length r = length qf)"

subsection \<open>A sort and the float64 mean\<close>

text \<open>
  To run the engine on a concrete database the two operations of pandas must be given.
  The mean is the one pandas computes. Rounding to the nearest float64, ties to the even
  significand of 53 bits (overflow and subnormal numbers are left out):
\<close>

definition round_half_even :: "real \<Rightarrow> int" where
  "round_half_even x =
     (let n = \<lfloor>x\<rfloor>; r = x - of_int n
      in if r < 1 / 2 then n else if 1 / 2 < r then n + 1 else if even n then n else n + 1)"

definition float64 :: "real \<Rightarrow> real" where
  "float64 x =
     (if x = 0 then 0
      else let ulp = 2 powr (of_int \<lfloor>log 2 \<bar>x\<bar>\<rfloor> - 52)
           in of_int (round_half_even (x / ulp)) * ulp)"

text \<open>
  The mean of a group as pandas computes it: a compensated (Kahan) summation in float64,
  then a division by the number of values.
\<close>

fun kahan_sum :: "real list \<Rightarrow> real \<Rightarrow> real \<Rightarrow> real" where
  "kahan_sum [] sumx compensation = sumx"
| "kahan_sum (val # vals) sumx compensation =
     (let y = float64 (val - compensation);
          t = float64 (sumx + y)
      in kahan_sum vals t (float64 (float64 (t - sumx) - y)))"

definition float64_mean :: "real list \<Rightarrow> real" where
  "float64_mean s = float64 (kahan_sum s 0 0 / real (length s))"

text \<open>
  A descending sort, which keeps rows of equal \<open>max\<close> in the order of the table. This
  is not claimed to be the order pandas gives to such rows; it is used below only on
  tables whose values of \<open>max\<close> are distinct, where every descending sort agrees with it.
\<close>

definition insertion_sort_values :: "author_score list \<Rightarrow> author_score list" where
  "insertion_sort_values rows = sort_key (\<lambda>r. - max_col r) rows"

definition pandas_float64 :: pandas where
  "pandas_float64 = \<lparr>sort_values = insertion_sort_values, mean = float64_mean\<rparr>"

section \<open>Text segmentation (src/parse_pdf.py)\<close>

text \<open>
  A Python string is the list of its Unicode code points; \<open>str\<close> gives the string of a
  literal. \<open>str.isspace\<close>, which is also what \<open>\s\<close> matches and what \<open>split()\<close> and
  \<open>strip()\<close> remove, holds of the 29 code points listed below.
\<close>

type_synonym unicode = "nat list"

definition str :: "string \<Rightarrow> unicode" where
  "str s = map of_char s"

definition isspace :: "nat \<Rightarrow> bool" where
  "isspace c \<longleftrightarrow>
     (9 \<le> c \<and> c \<le> 13) \<or> (28 \<le> c \<and> c \<le> 32) \<or> c = 133 \<or> c = 160 \<or> c = 0x1680 \<or>
     (0x2000 \<le> c \<and> c \<le> 0x200A) \<or> c = 0x2028 \<or> c = 0x2029 \<or> c = 0x202F \<or>
     c = 0x205F \<or> c = 0x3000"

text \<open>
  \<open>str.lower\<close> replaces every code point by its lowercase form. One code point, the capital
  I with a dot U+0130, becomes two, \<open>i\<close> and the combining dot U+0307, so the lowered text can
  be longer than the text; every other code point becomes one. A to Z and the capital
  letters 192 to 222 other than 215 move up by 32, and the Kelvin sign U+212A becomes \<open>k\<close>:
  with U+0130 these are all the code points that change below 256 or that change into a
  code point below 128. The table of the remaining capital letters above 255 is not
  reproduced: Python replaces each of them by one code point above 127, which one
  depending on the version of Unicode and, for the Greek sigma, on its place in the word;
  here it stands for itself. The program looks in a lowered text only for code points
  below 128 and for whitespace, and lowering neither gives nor takes away whitespace, so it
  finds the same in both.
\<close>

definition lower_code :: "nat \<Rightarrow> nat" where
  "lower_code c =
     (if (65 \<le> c \<and> c \<le> 90) \<or> (192 \<le> c \<and> c \<le> 222 \<and> c \<noteq> 215) then c + 32
      else if c = 0x212A then 0x6B
      else c)"

definition lower_char :: "nat \<Rightarrow> unicode" where
  "lower_char c = (if c = 0x130 then [0x69, 0x307] else [lower_code c])"

definition lower :: "unicode \<Rightarrow> unicode" where
  "lower s = concat (map lower_char s)"

definition strip :: "unicode \<Rightarrow> unicode" where
  "strip s = rev (dropWhile isspace (rev (dropWhile isspace s)))"

text \<open>
  \<open>s.split()\<close>: the maximal runs of code points that are not whitespace, in order.
  \<open>split_from word cs\<close> reads \<open>cs\<close> with \<open>word\<close> the run read so far.
\<close>

fun split_from :: "unicode \<Rightarrow> unicode \<Rightarrow> unicode list" where
  "split_from word [] = (if word = [] then [] else [word])"
| "split_from word (c # cs) =
     (if isspace c then (if word = [] then split_from [] cs else word # split_from [] cs)
      else split_from (word @ [c]) cs)"

definition split :: "unicode \<Rightarrow> unicode list" where
  "split s = split_from [] s"

text \<open>\<open>sep.join(words)\<close>.\<close>

fun join :: "unicode \<Rightarrow> unicode list \<Rightarrow> unicode" where
  "join sep [] = []"
| "join sep [w] = w"
| "join sep (w # ws) = w @ sep @ join sep ws"

text \<open>The pattern \<open>pat\<close> occurs in \<open>s\<close> at index \<open>i\<close>.\<close>

definition match_at :: "unicode \<Rightarrow> unicode \<Rightarrow> nat \<Rightarrow> bool" where
  "match_at pat s i = (take (length pat) (drop i s) = pat)"

text \<open>\<open>s.rfind(pat)\<close>: the highest index at which \<open>pat\<close> occurs, \<open>-1\<close> when there is none.\<close>

fun rfind_from :: "unicode \<Rightarrow> unicode \<Rightarrow> nat \<Rightarrow> int" where
  "rfind_from pat s 0 = (if match_at pat s 0 then 0 else - 1)"
| "rfind_from pat s (Suc i) =
     (if match_at pat s (Suc i) then int (Suc i) else rfind_from pat s i)"

definition rfind :: "unicode \<Rightarrow> unicode \<Rightarrow> int" where
  "rfind s pat = rfind_from pat s (length s)"

text \<open>
  \<open>re.search(pattern, s)\<close>, of which the code only reads \<open>start()\<close>: the lowest index at
  which the pattern matches, \<open>None\<close> when there is none. A pattern is given by the indices
  at which it matches.
\<close>

definition search :: "(unicode \<Rightarrow> nat \<Rightarrow> bool) \<Rightarrow> unicode \<Rightarrow> nat option" where
  "search matches s = List.find (matches s) [0..<Suc (length s)]"

definition newline :: nat where
  "newline = 0x0A"

text \<open>
  \<open>split_pos\<close> is an index of the lowered text, and the code cuts the text itself there.
\<close>

definition clean_full_text :: "unicode \<Rightarrow> unicode" where
  "clean_full_text text =
     (let text_lower = lower text;
          ref_pos = rfind text_lower (newline # str ''references'');
          bib_pos = rfind text_lower (newline # str ''bibliography'');
          split_pos = max ref_pos bib_pos
      in if split_pos \<noteq> - 1 then take (nat split_pos) text else text)"

text \<open>
  The four regular expressions of \<open>extract_multivector_text\<close>:
  \<open>(?<!in\s)abstract\<close>, \<open>introduction|keywords|\n1\.\<close>, \<open>introduction\<close> and
  \<open>methods|related work|background|\n2\.\<close>.
\<close>

definition abstract_start_pattern :: "unicode \<Rightarrow> nat \<Rightarrow> bool" where
  "abstract_start_pattern s i =
     (match_at (str ''abstract'') s i \<and>
      \<not> (3 \<le> i \<and> s ! (i - 3) = of_char CHR ''i'' \<and> s ! (i - 2) = of_char CHR ''n'' \<and>
         isspace (s ! (i - 1))))"

definition abstract_end_pattern :: "unicode \<Rightarrow> nat \<Rightarrow> bool" where
  "abstract_end_pattern s i =
     (match_at (str ''introduction'') s i \<or> match_at (str ''keywords'') s i \<or>
      match_at (newline # str ''1.'') s i)"

definition intro_start_pattern :: "unicode \<Rightarrow> nat \<Rightarrow> bool" where
  "intro_start_pattern s i = match_at (str ''introduction'') s i"

definition intro_end_pattern :: "unicode \<Rightarrow> nat \<Rightarrow> bool" where
  "intro_end_pattern s i =
     (match_at (str ''methods'') s i \<or> match_at (str ''related work'') s i \<or>
      match_at (str ''background'') s i \<or> match_at (newline # str ''2.'') s i)"

text \<open>
  What lines 56 to 70 append to \<open>best_text\<close>: nothing when no abstract is found, the text
  from the abstract to its end marker, or 500 words when there is no end marker. The
  indices are found in the lowered text and the slices are taken from the text.
\<close>

definition abstract_text :: "unicode \<Rightarrow> unicode" where
  "abstract_text full_text =
     (let full_text_lower = lower full_text in
      case search abstract_start_pattern full_text_lower of
        None \<Rightarrow> []
      | Some abstract_start \<Rightarrow>
          (case search abstract_end_pattern (drop abstract_start full_text_lower) of
             Some e \<Rightarrow> take e (drop abstract_start full_text)
           | None \<Rightarrow> join (str '' '') (take 500 (split (drop abstract_start full_text)))))"

text \<open>What lines 72 to 86 append: nothing, or a line break and the introduction.\<close>

definition intro_text :: "unicode \<Rightarrow> unicode" where
  "intro_text full_text =
     (let full_text_lower = lower full_text in
      case search intro_start_pattern full_text_lower of
        None \<Rightarrow> []
      | Some intro_start \<Rightarrow>
          (case search intro_end_pattern (drop intro_start full_text_lower) of
             Some e \<Rightarrow> newline # take e (drop intro_start full_text)
           | None \<Rightarrow> newline # join (str '' '') (take 1000 (split (drop intro_start full_text)))))"

text \<open>The value of \<open>best_text\<close> before the final check of line 90.\<close>

definition abstract_intro :: "unicode \<Rightarrow> unicode" where
  "abstract_intro full_text = abstract_text full_text @ intro_text full_text"

text \<open>The returned dictionary; \<open>None\<close> is the value \<open>None\<close> of a field.\<close>

record texts =
  best_text :: "unicode option"
  full_text :: "unicode option"

text \<open>Lines 45 to 96: from the raw text of the document to the two excerpts.\<close>

definition segment :: "unicode \<Rightarrow> texts" where
  "segment text =
     (if strip text = [] then \<lparr>best_text = None, full_text = None\<rparr>
      else
        let cleaned_full_text = clean_full_text text;
            best = abstract_intro text
        in \<lparr>best_text = (if length (split best) < 100 then None else Some best),
            full_text = Some cleaned_full_text\<rparr>)"

text \<open>
  Lines 35 to 43. The document is given by what PyMuPDF returns for it: \<open>None\<close> when
  opening or reading it raises, otherwise the texts of its pages, each of which the loop
  appends with a line break.
\<close>

definition page_texts :: "unicode list \<Rightarrow> unicode" where
  "page_texts pages = concat (map (\<lambda>page. page @ [newline]) pages)"

definition extract_multivector_text :: "unicode list option \<Rightarrow> texts" where
  "extract_multivector_text doc =
     (case doc of
        None \<Rightarrow> \<lparr>best_text = None, full_text = None\<rparr>
      | Some pages \<Rightarrow> segment (page_texts pages))"

text \<open>
  The marker of the bibliography that \<open>clean_full_text\<close> looks for: a line break followed
  by the word, at index \<open>i\<close> of the lowered text.
\<close>

definition heading_at :: "unicode \<Rightarrow> nat \<Rightarrow> bool" where
  "heading_at text i =
     (match_at (newline # str ''references'') (lower text) i \<or>
      match_at (newline # str ''bibliography'') (lower text) i)"

text \<open>
  A family of raw texts with an abstract and no other marker: the word abstract followed
  by \<open>n\<close> one-letter words.
\<close>

definition abstract_words :: "nat \<Rightarrow> unicode" where
  "abstract_words n = str ''abstract'' @ concat (replicate n (str '' w''))"

section \<open>The corpus builder (src/embed.py)\<close>

text \<open>
  A file found by \<open>glob('*/*.pdf')\<close>: the name of its folder, its stem, and what PyMuPDF
  returns for it. \<open>encode\<close> is \<open>model.encode\<close>.
\<close>

record pdf_file =
  parent_name :: string
  stem :: string
  content :: "unicode list option"

text \<open>Lines 44 to 51: a text is embedded when it is neither \<open>None\<close> nor empty.\<close>

definition embed_text :: "(unicode \<Rightarrow> vec) \<Rightarrow> unicode option \<Rightarrow> vec option" where
  "embed_text encode text =
     (case text of
        None \<Rightarrow> None
      | Some s \<Rightarrow> if s = [] then None else Some (encode s))"

text \<open>The body of the loop: the record appended for one file.\<close>

definition make_record :: "(unicode \<Rightarrow> vec) \<Rightarrow> pdf_file \<Rightarrow> paper_record" where
  "make_record encode pdf_path =
     (let author_name = parent_name pdf_path;
          paper_name = author_name @ ''__'' @ stem pdf_path @ ''.pdf'';
          texts = extract_multivector_text (content pdf_path)
      in \<lparr>author = author_name, paper = paper_name,
          best_text_embedding = embed_text encode (best_text texts),
          full_text_embedding = embed_text encode (full_text texts)\<rparr>)"

text \<open>The loop of lines 36 to 59 over the sorted files, appending to \<open>database_records\<close>.\<close>

fun process_pdfs ::
  "(unicode \<Rightarrow> vec) \<Rightarrow> pdf_file list \<Rightarrow> paper_record list \<Rightarrow> paper_record list" where
  "process_pdfs encode [] database_records = database_records"
| "process_pdfs encode (pdf_path # pdf_files) database_records =
     process_pdfs encode pdf_files (database_records @ [make_record encode pdf_path])"

text \<open>
  The database that is saved: none when no file is found (the function returns before the
  loop), otherwise the records of the loop.
\<close>

definition build_multivector_database ::
  "(unicode \<Rightarrow> vec) \<Rightarrow> pdf_file list \<Rightarrow> paper_record list option" where
  "build_multivector_database encode pdf_files =
     (if pdf_files = [] then None else Some (process_pdfs encode pdf_files []))"

section \<open>The empty database\<close>

lemma cosine_similarity_empty: "cosine_similarity q [] = Inl ValueError"
  by (simp add: cosine_similarity_def)

lemma final_scores_empty: "final_scores qb qf embedding_dim [] = Inl ValueError"
  by (simp add: final_scores_def score_A_def db_best_text_matrix_def cosine_similarity_empty)

text \<open>
  C1, as the code has it: on an empty database both matrices are \<open>np.array([])\<close>, the first
  call of \<open>cosine_similarity\<close> raises \<open>ValueError\<close>, and \<open>find_similar_authors\<close> returns no
  table, whatever the query vectors and \<open>top_k\<close> are.
\<close>

theorem find_similar_authors_empty_database_raises:
  "find_similar_authors pd query_best_vector query_full_vector embedding_dim [] top_k
   = Inl ValueError"
  by (simp add: find_similar_authors_def final_scores_empty)

text \<open>
  C1 as stated fails: with the empty database, queries of dimension one and
  \<open>top_k = 5\<close> the call does not return the empty table.
\<close>

theorem find_similar_authors_empty_database_counterexample:
  "find_similar_authors pandas_float64 [1] [1] 1 [] 5 \<noteq> Inr []"
  by (simp add: find_similar_authors_def final_scores_empty)

section \<open>Scores\<close>

lemma cosine_similarity_Inr:
  assumes "cosine_similarity q M = Inr s"
  shows "s = map (\<lambda>r. dot (normalize_vec q) (normalize_vec r)) M"
  using assms unfolding cosine_similarity_def by (metis sum.inject(2) sum.distinct(1))

lemma cosine_similarity_ok:
  assumes "M \<noteq> []" "q \<noteq> []" "\<forall>r \<in> set M. length r = length q"
  shows "cosine_similarity q M = Inr (map (\<lambda>r. dot (normalize_vec q) (normalize_vec r)) M)"
proof -
  have "hd M \<in> set M" using assms(1) by simp
  then have "length (hd M) = length q" using assms(3) by blast
  then show ?thesis using assms by (simp add: cosine_similarity_def)
qed

lemma cosine_similarity_Inr_checks:
  assumes "cosine_similarity q M = Inr s"
  shows "M \<noteq> [] \<and> \<not> (\<exists>r \<in> set M. length r \<noteq> length (hd M)) \<and>
         \<not> (length q = 0 \<or> length (hd M) = 0) \<and> \<not> length q \<noteq> length (hd M)"
  using assms unfolding cosine_similarity_def by (metis sum.distinct(1))

lemma cosine_similarity_raises:
  assumes "M = [] \<or> q = [] \<or> (\<exists>r \<in> set M. length r \<noteq> length q)"
  shows "cosine_similarity q M = Inl ValueError"
proof (cases "cosine_similarity q M")
  case (Inl e)
  then show ?thesis by (cases e) simp
next
  case (Inr s)
  note c = cosine_similarity_Inr_checks[OF Inr]
  have m: "M \<noteq> []" using c by (rule conjunct1)
  have l: "length q = length (hd M)" using c by blast
  have "length q \<noteq> 0" using c by blast
  then have q: "q \<noteq> []" by simp
  have "\<forall>r \<in> set M. length r = length (hd M)" using c by blast
  then have "\<forall>r \<in> set M. length r = length q" using l by simp
  then have False using assms m q by blast
  then show ?thesis ..
qed

lemma score_A_length: "score_A qb d database = Inr sa \<Longrightarrow> length sa = length database"
  by (auto simp: score_A_def db_best_text_matrix_def dest: cosine_similarity_Inr)

lemma score_B_length: "score_B qf d database = Inr sb \<Longrightarrow> length sb = length database"
  by (auto simp: score_B_def db_full_text_matrix_def dest: cosine_similarity_Inr)

lemma well_formed_score_A:
  assumes "well_formed qb qf d database"
  shows "\<exists>sa. score_A qb d database = Inr sa"
proof -
  have "db_best_text_matrix d database \<noteq> []"
    using assms by (simp add: well_formed_def db_best_text_matrix_def)
  then show ?thesis
    using assms cosine_similarity_ok[of "db_best_text_matrix d database" qb]
    by (simp add: score_A_def well_formed_def)
qed

lemma well_formed_score_B:
  assumes "well_formed qb qf d database"
  shows "\<exists>sb. score_B qf d database = Inr sb"
proof -
  have "db_full_text_matrix d database \<noteq> []"
    using assms by (simp add: well_formed_def db_full_text_matrix_def)
  then show ?thesis
    using assms cosine_similarity_ok[of "db_full_text_matrix d database" qf]
    by (simp add: score_B_def well_formed_def)
qed

lemma well_formed_final_scores:
  assumes "well_formed qb qf d database"
  shows "\<exists>fs. final_scores qb qf d database = Inr fs"
  using well_formed_score_A[OF assms] well_formed_score_B[OF assms]
  by (auto simp: final_scores_def)

lemma not_well_formed_final_scores:
  assumes "\<not> well_formed qb qf d database"
  shows "final_scores qb qf d database = Inl ValueError"
proof (cases "score_A qb d database")
  case (Inl e)
  then show ?thesis by (cases e) (simp add: final_scores_def)
next
  case (Inr sa)
  have a: "\<not> (db_best_text_matrix d database = [] \<or> qb = [] \<or>
      (\<exists>r \<in> set (db_best_text_matrix d database). length r \<noteq> length qb))"
    using Inr cosine_similarity_raises[of "db_best_text_matrix d database" qb]
    by (auto simp: score_A_def)
  then have "database \<noteq> []" by (auto simp: db_best_text_matrix_def)
  then have "db_full_text_matrix d database = [] \<or> qf = [] \<or>
      (\<exists>r \<in> set (db_full_text_matrix d database). length r \<noteq> length qf)"
    using assms a unfolding well_formed_def by blast
  then have "score_B qf d database = Inl ValueError"
    unfolding score_B_def by (rule cosine_similarity_raises)
  then show ?thesis using Inr by (simp add: final_scores_def)
qed

lemma not_well_formed_raises:
  assumes "\<not> well_formed qb qf d database"
  shows "find_similar_authors pd qb qf d database top_k = Inl ValueError"
  by (simp add: find_similar_authors_def not_well_formed_final_scores[OF assms])

lemma final_scores_Inr:
  assumes "final_scores qb qf d database = Inr fs"
  shows "\<exists>sa sb. score_A qb d database = Inr sa \<and> score_B qf d database = Inr sb \<and>
           fs = map2 max sa sb"
  using assms by (auto simp: final_scores_def split: sum.splits)


text \<open>
  C4: whenever the fused scores are computed, both searches have returned one score for
  each record of the database, and the fused score of every record is the maximum of its
  score in the search on the abstract and introduction and its score in the search on the
  full text; so it is at least each of them.
\<close>

theorem fused_score_is_maximum:
  assumes "final_scores qb qf d database = Inr fs"
  shows "\<exists>sa sb. score_A qb d database = Inr sa \<and> score_B qf d database = Inr sb \<and>
           length sa = length database \<and> length sb = length database \<and>
           length fs = length database \<and>
           (\<forall>i < length database. fs ! i = max (sa ! i) (sb ! i) \<and> sa ! i \<le> fs ! i \<and> sb ! i \<le> fs ! i)"
proof -
  from final_scores_Inr[OF assms] obtain sa sb where
    h: "score_A qb d database = Inr sa" "score_B qf d database = Inr sb" "fs = map2 max sa sb"
    by blast
  have la: "length sa = length database" and lb: "length sb = length database"
    using h score_A_length score_B_length by blast+
  have "\<forall>i < length database. fs ! i = max (sa ! i) (sb ! i) \<and> sa ! i \<le> fs ! i \<and> sb ! i \<le> fs ! i"
    using h(3) la lb by simp
  moreover have "length fs = length database" using h(3) la lb by simp
  ultimately show ?thesis using h(1,2) la lb by blast
qed

lemma dot_zeros: "dot x (replicate n 0) = 0"
proof (induction n arbitrary: x)
  case 0
  then show ?case by (simp add: dot_def)
next
  case (Suc n)
  then show ?case by (cases x) (simp_all add: dot_def)
qed

lemma normalize_vec_zeros: "normalize_vec (zeros n) = zeros n"
  by (simp add: normalize_vec_def row_norm_def zeros_def Let_def)

text \<open>
  C9: a record whose \<open>best_text_embedding\<close> is \<open>None\<close> enters the first search as the
  vector of zeros, and its score there is the cosine similarity of the query against that
  vector, which is 0 whatever the query is, the zero query included.
\<close>

theorem absent_best_text_scores_zero:
  assumes "score_A qb d database = Inr sa" "i < length database"
    "best_text_embedding (database ! i) = None"
  shows "sa ! i = dot (normalize_vec qb) (normalize_vec (zeros d)) \<and> sa ! i = 0"
proof -
  have "sa = map (\<lambda>r. dot (normalize_vec qb) (normalize_vec r)) (db_best_text_matrix d database)"
    using assms(1) by (auto simp: score_A_def dest: cosine_similarity_Inr)
  moreover have "db_best_text_matrix d database ! i = zeros d"
    using assms(2,3) by (simp add: db_best_text_matrix_def)
  moreover have "i < length (db_best_text_matrix d database)"
    using assms(2) by (simp add: db_best_text_matrix_def)
  ultimately have "sa ! i = dot (normalize_vec qb) (normalize_vec (zeros d))" by simp
  moreover have "normalize_vec (zeros d) = zeros d" by (rule normalize_vec_zeros)
  moreover have "dot (normalize_vec qb) (zeros d) = 0" by (simp add: zeros_def dot_zeros)
  ultimately show ?thesis by simp
qed

section \<open>Aggregation and ranking\<close>


lemma descending_sort_mset: "descending_sort f \<Longrightarrow> mset (f rows) = mset rows"
  by (simp add: descending_sort_def)

lemma descending_sort_sorted:
  "descending_sort f \<Longrightarrow> sorted_wrt (\<lambda>r s. max_col s \<le> max_col r) (f rows)"
  by (simp add: descending_sort_def)

lemma descending_sort_set:
  assumes "descending_sort f"
  shows "set (f rows) = set rows"
  using descending_sort_mset[OF assms, of rows] by (rule mset_eq_setD)

lemma descending_sort_length:
  assumes "descending_sort f"
  shows "length (f rows) = length rows"
  using descending_sort_mset[OF assms, of rows] by (rule mset_eq_length)

lemma descending_sort_author_col:
  assumes "descending_sort f"
  shows "mset (map author_col (f rows)) = mset (map author_col rows)"
proof -
  have "image_mset author_col (mset (f rows)) = image_mset author_col (mset rows)"
    by (simp only: descending_sort_mset[OF assms])
  then show ?thesis by simp
qed

lemma insertion_sort_values_descending: "descending_sort insertion_sort_values"
proof -
  have "sorted_wrt (\<lambda>r s. max_col s \<le> max_col r) (insertion_sort_values rows)" for rows
  proof -
    have "sorted (map (\<lambda>r. - max_col r) (insertion_sort_values rows))"
      by (simp add: insertion_sort_values_def)
    then show ?thesis by (simp add: sorted_map)
  qed
  moreover have "mset (insertion_sort_values rows) = mset rows" for rows
    by (simp add: insertion_sort_values_def)
  ultimately show ?thesis by (simp add: descending_sort_def)
qed

lemma author_col_author_scores:
  "map author_col (author_scores mean_of authors scores) = sort (remdups authors)"
  by (simp add: author_scores_def Let_def comp_def)

lemma length_author_scores:
  "length (author_scores mean_of authors scores) = card (set authors)"
  by (simp add: author_scores_def length_remdups_card_conv)

lemma distinct_sorted_table:
  assumes "descending_sort f"
  shows "distinct (map author_col (f (author_scores mean_of authors scores)))"
proof -
  have "distinct (map author_col (author_scores mean_of authors scores))"
    by (simp add: author_col_author_scores)
  then show ?thesis
    using descending_sort_author_col[OF assms, of "author_scores mean_of authors scores"]
      mset_eq_imp_distinct_iff by blast
qed

lemma set_author_col_sorted_table:
  assumes "descending_sort f"
  shows "author_col ` set (f (author_scores mean_of authors scores)) = set authors"
proof -
  have "author_col ` set (f (author_scores mean_of authors scores))
        = set (map author_col (author_scores mean_of authors scores))"
    by (simp add: descending_sort_set[OF assms])
  then show ?thesis by (simp add: author_col_author_scores)
qed







lemma head_positive: "0 < n \<Longrightarrow> head n rows = take (nat n) rows"
  by (simp add: head_def)

lemma head_negative: "n < 0 \<Longrightarrow> head n rows = take (length rows - nat (- n)) rows"
  by (simp add: head_def)

lemma sorted_wrt_take_top:
  assumes "sorted_wrt (\<lambda>r s. max_col s \<le> max_col r) tab"
  shows "\<forall>r \<in> set (take n tab). \<forall>s \<in> set tab. s \<notin> set (take n tab) \<longrightarrow> max_col s \<le> max_col r"
proof (intro ballI impI)
  fix r s assume r: "r \<in> set (take n tab)" and s: "s \<in> set tab" "s \<notin> set (take n tab)"
  have "set tab = set (take n tab) \<union> set (drop n tab)"
    by (metis append_take_drop_id set_append)
  then have d: "s \<in> set (drop n tab)" using s by simp
  have "sorted_wrt (\<lambda>r s. max_col s \<le> max_col r) (take n tab @ drop n tab)"
    using assms by simp
  then have "\<forall>x \<in> set (take n tab). \<forall>y \<in> set (drop n tab). max_col y \<le> max_col x"
    by (simp only: sorted_wrt_append) simp
  then show "max_col s \<le> max_col r" using r d by blast
qed

text \<open>
  The first \<open>n\<close> rows of the sorted table of a well-formed database: what they are, and
  that no row left out has a greater \<open>max\<close> than a row kept.
\<close>

lemma top_rows:
  assumes "descending_sort (sort_values pd)"
  defines "table \<equiv> \<lambda>database fs. author_scores (mean pd) (map author database) fs"
  shows "sorted_wrt (\<lambda>r s. max_col s \<le> max_col r) (take n (sort_values pd (table database fs))) \<and>
         (\<forall>r \<in> set (take n (sort_values pd (table database fs))).
            \<forall>s \<in> set (table database fs).
              s \<notin> set (take n (sort_values pd (table database fs))) \<longrightarrow> max_col s \<le> max_col r) \<and>
         set (take n (sort_values pd (table database fs))) \<subseteq> set (table database fs) \<and>
         length (take n (sort_values pd (table database fs))) = min n (card (author ` set database)) \<and>
         distinct (map author_col (take n (sort_values pd (table database fs)))) \<and>
         (card (author ` set database) \<le> n \<longrightarrow>
            author_col ` set (take n (sort_values pd (table database fs))) = author ` set database)"
proof -
  define tab where "tab = sort_values pd (table database fs)"
  have st: "set tab = set (table database fs)"
    unfolding tab_def by (rule descending_sort_set[OF assms(1)])
  have so: "sorted_wrt (\<lambda>r s. max_col s \<le> max_col r) tab"
    unfolding tab_def by (rule descending_sort_sorted[OF assms(1)])
  have len_tab: "length tab = card (author ` set database)"
    by (simp add: tab_def table_def descending_sort_length[OF assms(1)] length_author_scores)
  have s: "sorted_wrt (\<lambda>r s. max_col s \<le> max_col r) (take n tab)"
    by (rule sorted_wrt_take) (rule so)
  have t: "\<forall>r \<in> set (take n tab). \<forall>s \<in> set (table database fs).
              s \<notin> set (take n tab) \<longrightarrow> max_col s \<le> max_col r"
    using sorted_wrt_take_top[OF so, of n] by (simp only: st)
  have sub: "set (take n tab) \<subseteq> set (table database fs)"
    using set_take_subset[of n tab] by (simp only: st)
  have l: "length (take n tab) = min n (card (author ` set database))"
    using len_tab by (simp add: min.commute)
  have dt: "distinct (map author_col tab)"
    unfolding tab_def table_def by (rule distinct_sorted_table[OF assms(1)])
  have "map author_col (take n tab) = take n (map author_col tab)"
    by (simp add: take_map)
  then have di: "distinct (map author_col (take n tab))" using dt by simp
  have sa: "author_col ` set tab = author ` set database"
    using set_author_col_sorted_table[OF assms(1), of "mean pd" "map author database" fs]
    by (simp add: tab_def table_def)
  have all: "card (author ` set database) \<le> n \<longrightarrow>
               author_col ` set (take n tab) = author ` set database"
    using len_tab sa by simp
  show ?thesis unfolding tab_def[symmetric] by (intro conjI s t sub l di all)
qed

text \<open>
  C8, as the code has it. On a database that is not empty and whose matrices have the
  dimension of the queries, a positive \<open>top_k\<close> gives the first \<open>top_k\<close> rows of the table
  of the authors sorted by descending \<open>max\<close>: the rows are in descending order of \<open>max\<close>, no
  row left out has a greater \<open>max\<close> than a row returned, there are as many rows as the
  smaller of \<open>top_k\<close> and the number of distinct authors, no author has two rows, and when
  there are at most \<open>top_k\<close> authors every author has a row. Which of several rows of equal
  \<open>max\<close> comes first is left to the sort. On every other database, the empty one included,
  the call raises \<open>ValueError\<close>.
\<close>

theorem top_k_rows_sorted_and_truncated:
  assumes "descending_sort (sort_values pd)" "0 < top_k"
  shows "(well_formed qb qf d database \<longrightarrow>
           (\<exists>fs rows. final_scores qb qf d database = Inr fs \<and>
              find_similar_authors pd qb qf d database top_k = Inr rows \<and>
              rows = take (nat top_k)
                       (sort_values pd (author_scores (mean pd) (map author database) fs)) \<and>
              sorted_wrt (\<lambda>r s. max_col s \<le> max_col r) rows \<and>
              (\<forall>r \<in> set rows. \<forall>s \<in> set (author_scores (mean pd) (map author database) fs).
                 s \<notin> set rows \<longrightarrow> max_col s \<le> max_col r) \<and>
              set rows \<subseteq> set (author_scores (mean pd) (map author database) fs) \<and>
              length rows = min (nat top_k) (card (author ` set database)) \<and>
              distinct (map author_col rows) \<and>
              (card (author ` set database) \<le> nat top_k \<longrightarrow>
                 author_col ` set rows = author ` set database))) \<and>
         (\<not> well_formed qb qf d database \<longrightarrow>
            find_similar_authors pd qb qf d database top_k = Inl ValueError)"
proof (intro conjI impI)
  assume wf: "well_formed qb qf d database"
  from well_formed_final_scores[OF wf] obtain fs where
    fs: "final_scores qb qf d database = Inr fs" by blast
  define rows where
    "rows = take (nat top_k) (sort_values pd (author_scores (mean pd) (map author database) fs))"
  have r: "find_similar_authors pd qb qf d database top_k = Inr rows"
    using fs assms(2) by (simp add: find_similar_authors_def head_positive rows_def)
  note t = top_rows[OF assms(1), of "nat top_k" database fs, folded rows_def]
  have p: "rows = take (nat top_k)
             (sort_values pd (author_scores (mean pd) (map author database) fs)) \<and>
           sorted_wrt (\<lambda>r s. max_col s \<le> max_col r) rows \<and>
           (\<forall>r \<in> set rows. \<forall>s \<in> set (author_scores (mean pd) (map author database) fs).
              s \<notin> set rows \<longrightarrow> max_col s \<le> max_col r) \<and>
           set rows \<subseteq> set (author_scores (mean pd) (map author database) fs) \<and>
           length rows = min (nat top_k) (card (author ` set database)) \<and>
           distinct (map author_col rows) \<and>
           (card (author ` set database) \<le> nat top_k \<longrightarrow>
              author_col ` set rows = author ` set database)"
    by (rule conjI[OF rows_def t])
  show "\<exists>fs rows. final_scores qb qf d database = Inr fs \<and>
          find_similar_authors pd qb qf d database top_k = Inr rows \<and>
          rows = take (nat top_k)
                   (sort_values pd (author_scores (mean pd) (map author database) fs)) \<and>
          sorted_wrt (\<lambda>r s. max_col s \<le> max_col r) rows \<and>
          (\<forall>r \<in> set rows. \<forall>s \<in> set (author_scores (mean pd) (map author database) fs).
             s \<notin> set rows \<longrightarrow> max_col s \<le> max_col r) \<and>
          set rows \<subseteq> set (author_scores (mean pd) (map author database) fs) \<and>
          length rows = min (nat top_k) (card (author ` set database)) \<and>
          distinct (map author_col rows) \<and>
          (card (author ` set database) \<le> nat top_k \<longrightarrow>
             author_col ` set rows = author ` set database)"
    by (rule exI[of _ fs], rule exI[of _ rows]) (intro conjI fs r p)
next
  assume "\<not> well_formed qb qf d database"
  then show "find_similar_authors pd qb qf d database top_k = Inl ValueError"
    by (rule not_well_formed_raises)
qed

text \<open>
  C2, as the code has it. On a database that is not empty and whose matrices have the
  dimension of the queries, \<open>top_k = 0\<close> gives the empty table, and a negative \<open>top_k\<close>
  gives the table sorted by descending \<open>max\<close> without its last \<open>|top_k|\<close> rows: the rows
  returned are in descending order, no row left out has a greater \<open>max\<close> than a row
  returned, and the result is empty exactly when there are at most \<open>|top_k|\<close> distinct
  authors. On every other database the call raises \<open>ValueError\<close>.
\<close>

theorem top_k_nonpositive:
  assumes "descending_sort (sort_values pd)" "top_k \<le> 0"
  shows "(well_formed qb qf d database \<longrightarrow>
           (\<exists>fs rows. final_scores qb qf d database = Inr fs \<and>
              find_similar_authors pd qb qf d database top_k = Inr rows \<and>
              (top_k = 0 \<longrightarrow> rows = []) \<and>
              rows = take (if top_k = 0 then 0 else card (author ` set database) - nat (- top_k))
                       (sort_values pd (author_scores (mean pd) (map author database) fs)) \<and>
              sorted_wrt (\<lambda>r s. max_col s \<le> max_col r) rows \<and>
              (\<forall>r \<in> set rows. \<forall>s \<in> set (author_scores (mean pd) (map author database) fs).
                 s \<notin> set rows \<longrightarrow> max_col s \<le> max_col r) \<and>
              length rows = (if top_k = 0 then 0 else card (author ` set database) - nat (- top_k)) \<and>
              distinct (map author_col rows) \<and>
              (rows = [] \<longleftrightarrow> top_k = 0 \<or> card (author ` set database) \<le> nat (- top_k)))) \<and>
         (\<not> well_formed qb qf d database \<longrightarrow>
            find_similar_authors pd qb qf d database top_k = Inl ValueError)"
proof (intro conjI impI)
  assume wf: "well_formed qb qf d database"
  from well_formed_final_scores[OF wf] obtain fs where
    fs: "final_scores qb qf d database = Inr fs" by blast
  define n where "n = (if top_k = 0 then 0 else card (author ` set database) - nat (- top_k))"
  define tab where "tab = sort_values pd (author_scores (mean pd) (map author database) fs)"
  define rows where "rows = take n tab"
  have len_tab: "length tab = card (author ` set database)"
    by (simp add: tab_def descending_sort_length[OF assms(1)] length_author_scores)
  have h: "head top_k tab = rows"
  proof (cases "top_k = 0")
    case True
    then show ?thesis by (simp add: head_def rows_def n_def)
  next
    case False
    then have "top_k < 0" using assms(2) by simp
    then show ?thesis using len_tab by (simp add: head_negative rows_def n_def)
  qed
  have r: "find_similar_authors pd qb qf d database top_k = Inr rows"
    using fs h by (simp add: find_similar_authors_def tab_def)
  have z: "top_k = 0 \<longrightarrow> rows = []" by (simp add: rows_def n_def)
  have e: "rows = take n (sort_values pd (author_scores (mean pd) (map author database) fs))"
    by (simp add: rows_def tab_def)
  note t = top_rows[OF assms(1), of n database fs, folded tab_def, folded rows_def]
  have s: "sorted_wrt (\<lambda>r s. max_col s \<le> max_col r) rows" using t by (rule conjunct1)
  have u: "\<forall>r \<in> set rows. \<forall>s \<in> set (author_scores (mean pd) (map author database) fs).
             s \<notin> set rows \<longrightarrow> max_col s \<le> max_col r"
    using t by blast
  have l: "length rows = n" using len_tab by (simp add: rows_def n_def)
  have di: "distinct (map author_col rows)" using t by blast
  have "rows = [] \<longleftrightarrow> n = 0" using l by auto
  also have "n = 0 \<longleftrightarrow> top_k = 0 \<or> card (author ` set database) \<le> nat (- top_k)"
    by (simp add: n_def)
  finally have em: "rows = [] \<longleftrightarrow> top_k = 0 \<or> card (author ` set database) \<le> nat (- top_k)" .
  show "\<exists>fs rows. final_scores qb qf d database = Inr fs \<and>
          find_similar_authors pd qb qf d database top_k = Inr rows \<and>
          (top_k = 0 \<longrightarrow> rows = []) \<and>
          rows = take (if top_k = 0 then 0 else card (author ` set database) - nat (- top_k))
                   (sort_values pd (author_scores (mean pd) (map author database) fs)) \<and>
          sorted_wrt (\<lambda>r s. max_col s \<le> max_col r) rows \<and>
          (\<forall>r \<in> set rows. \<forall>s \<in> set (author_scores (mean pd) (map author database) fs).
             s \<notin> set rows \<longrightarrow> max_col s \<le> max_col r) \<and>
          length rows = (if top_k = 0 then 0 else card (author ` set database) - nat (- top_k)) \<and>
          distinct (map author_col rows) \<and>
          (rows = [] \<longleftrightarrow> top_k = 0 \<or> card (author ` set database) \<le> nat (- top_k))"
    unfolding n_def[symmetric]
    by (rule exI[of _ fs], rule exI[of _ rows]) (intro conjI fs r z e s u l di em)
next
  assume "\<not> well_formed qb qf d database"
  then show "find_similar_authors pd qb qf d database top_k = Inl ValueError"
    by (rule not_well_formed_raises)
qed

section \<open>Searching a text\<close>

lemma match_at_beyond: "length s < i \<Longrightarrow> pat \<noteq> [] \<Longrightarrow> \<not> match_at pat s i"
  by (auto simp: match_at_def)

lemma rfind_from_none:
  "rfind_from pat s n = - 1 \<longleftrightarrow> (\<forall>i \<le> n. \<not> match_at pat s i)"
proof (induction n)
  case 0
  then show ?case by simp
next
  case (Suc n)
  then show ?case by (auto simp: le_Suc_eq)
qed

lemma rfind_from_range: "- 1 \<le> rfind_from pat s n \<and> rfind_from pat s n \<le> int n"
  by (induction n) auto

lemma rfind_from_some:
  "rfind_from pat s n = int p \<Longrightarrow>
     p \<le> n \<and> match_at pat s p \<and> (\<forall>j. p < j \<and> j \<le> n \<longrightarrow> \<not> match_at pat s j)"
proof (induction n)
  case 0
  then show ?case by (auto split: if_splits)
next
  case (Suc n)
  show ?case
  proof (cases "match_at pat s (Suc n)")
    case True
    then have "int (Suc n) = int p" using Suc.prems by (simp del: of_nat_Suc)
    then have "p = Suc n" by (simp del: of_nat_Suc)
    then show ?thesis using True by auto
  next
    case False
    then have "rfind_from pat s n = int p" using Suc.prems by simp
    from Suc.IH[OF this] show ?thesis using False by (auto simp: le_Suc_eq)
  qed
qed

lemma rfind_none:
  assumes "pat \<noteq> []"
  shows "rfind s pat = - 1 \<longleftrightarrow> (\<forall>i. \<not> match_at pat s i)"
proof -
  have "(\<forall>i \<le> length s. \<not> match_at pat s i) \<longleftrightarrow> (\<forall>i. \<not> match_at pat s i)"
    using match_at_beyond[OF _ assms] by (metis not_le)
  then show ?thesis by (simp add: rfind_def rfind_from_none)
qed

lemma rfind_some:
  assumes "pat \<noteq> []" "rfind s pat = int p"
  shows "match_at pat s p \<and> (\<forall>j. p < j \<longrightarrow> \<not> match_at pat s j)"
proof -
  from rfind_from_some[of pat s "length s" p] assms(2)
  have a: "p \<le> length s" "match_at pat s p"
    "\<forall>j. p < j \<and> j \<le> length s \<longrightarrow> \<not> match_at pat s j"
    by (simp_all add: rfind_def)
  have "\<forall>j. p < j \<longrightarrow> \<not> match_at pat s j"
  proof (intro allI impI)
    fix j assume "p < j"
    show "\<not> match_at pat s j"
    proof (cases "j \<le> length s")
      case True
      then show ?thesis using a(3) \<open>p < j\<close> by blast
    next
      case False
      then show ?thesis using match_at_beyond[OF _ assms(1)] by simp
    qed
  qed
  then show ?thesis using a(2) by blast
qed

lemma rfind_cases:
  "rfind s pat = - 1 \<or> (\<exists>p. rfind s pat = int p)"
proof (cases "rfind s pat = - 1")
  case True
  then show ?thesis by simp
next
  case False
  have "- 1 \<le> rfind s pat" using rfind_from_range[of pat s "length s"] by (simp add: rfind_def)
  then have "0 \<le> rfind s pat" using False by arith
  then have "rfind s pat = int (nat (rfind s pat))" by simp
  then show ?thesis by blast
qed

lemma rfind_ge_match:
  assumes "pat \<noteq> []" "match_at pat s j"
  shows "int j \<le> rfind s pat"
proof -
  have "rfind s pat \<noteq> - 1" using assms rfind_none[OF assms(1), of s] by blast
  then obtain q where q: "rfind s pat = int q" using rfind_cases[of s pat] by blast
  from rfind_some[OF assms(1) q] have "\<not> q < j" using assms(2) by blast
  then show ?thesis using q by simp
qed

section \<open>The full text without its bibliography\<close>


lemma rfind_heading_le:
  assumes "\<forall>j. p < j \<longrightarrow> \<not> heading_at text j"
    "pat = newline # str ''references'' \<or> pat = newline # str ''bibliography''"
  shows "rfind (lower text) pat \<le> int p"
proof -
  from rfind_cases[of "lower text" pat] show ?thesis
  proof
    assume "rfind (lower text) pat = - 1"
    then show ?thesis by simp
  next
    assume "\<exists>q. rfind (lower text) pat = int q"
    then obtain q where q: "rfind (lower text) pat = int q" by blast
    have "pat \<noteq> []" using assms(2) by auto
    from rfind_some[OF this q] have "match_at pat (lower text) q" by simp
    then have "heading_at text q" using assms(2) by (auto simp: heading_at_def)
    then have "\<not> p < q" using assms(1) by blast
    then show ?thesis using q by simp
  qed
qed

lemma rfind_heading_eq:
  assumes "\<forall>j. p < j \<longrightarrow> \<not> heading_at text j"
    "pat = newline # str ''references'' \<or> pat = newline # str ''bibliography''"
    "match_at pat (lower text) p"
  shows "rfind (lower text) pat = int p"
proof -
  have ne: "pat \<noteq> []" using assms(2) by auto
  have "rfind (lower text) pat \<noteq> - 1"
    using assms(3) rfind_none[OF ne, of "lower text"] by blast
  then obtain q where q: "rfind (lower text) pat = int q"
    using rfind_cases[of "lower text" pat] by blast
  from rfind_some[OF ne q] have "\<forall>j. q < j \<longrightarrow> \<not> match_at pat (lower text) j" by simp
  then have "\<not> q < p" using assms(3) by blast
  moreover have "int q \<le> int p" using rfind_heading_le[OF assms(1,2)] q by simp
  ultimately show ?thesis using q by simp
qed

lemma clean_full_text_last_heading:
  assumes "heading_at text p" "\<forall>j. p < j \<longrightarrow> \<not> heading_at text j"
  shows "clean_full_text text = take p text"
proof -
  let ?r = "rfind (lower text) (newline # str ''references'')"
  let ?b = "rfind (lower text) (newline # str ''bibliography'')"
  have r: "?r \<le> int p" by (rule rfind_heading_le[OF assms(2)]) simp
  have b: "?b \<le> int p" by (rule rfind_heading_le[OF assms(2)]) simp
  have "?r = int p \<or> ?b = int p"
  proof (cases "match_at (newline # str ''references'') (lower text) p")
    case True
    have "?r = int p" by (rule rfind_heading_eq[OF assms(2) _ True]) simp
    then show ?thesis by simp
  next
    case False
    then have m: "match_at (newline # str ''bibliography'') (lower text) p"
      using assms(1) by (simp add: heading_at_def)
    have "?b = int p" by (rule rfind_heading_eq[OF assms(2) _ m]) simp
    then show ?thesis by simp
  qed
  then have "max ?r ?b = int p" using r b by (auto simp: max_def)
  then show ?thesis by (simp add: clean_full_text_def Let_def)
qed








section \<open>Blank texts\<close>

lemma strip_empty_iff: "strip text = [] \<longleftrightarrow> (\<forall>c \<in> set text. isspace c)"
proof
  assume "strip text = []"
  then have "dropWhile isspace (rev (dropWhile isspace text)) = []" by (simp add: strip_def)
  then have a: "\<forall>c \<in> set (dropWhile isspace text). isspace c"
    by (simp add: dropWhile_eq_Nil_conv)
  have "dropWhile isspace text = []"
  proof (cases "dropWhile isspace text")
    case Nil
    then show ?thesis .
  next
    case (Cons x xs)
    then have ne: "dropWhile isspace text \<noteq> []" by simp
    from hd_dropWhile[OF ne] have "\<not> isspace x" using Cons by simp
    moreover have "isspace x" using a Cons by simp
    ultimately show ?thesis by simp
  qed
  then show "\<forall>c \<in> set text. isspace c" by (simp add: dropWhile_eq_Nil_conv)
next
  assume "\<forall>c \<in> set text. isspace c"
  then have dw: "dropWhile isspace text = []" by (simp add: dropWhile_eq_Nil_conv)
  show "strip text = []" unfolding strip_def dw by simp
qed

lemma match_at_in_set:
  assumes "match_at (c # pat) s i"
  shows "c \<in> set s"
proof -
  have "take (Suc (length pat)) (drop i s) = c # pat" using assms by (simp add: match_at_def)
  then have "c \<in> set (drop i s)" by (cases "drop i s") simp_all
  then show ?thesis by (rule in_set_dropD)
qed

lemma isspace_lower_char: "isspace c \<Longrightarrow> lower_char c = [c]"
  by (auto simp: isspace_def lower_char_def lower_code_def)

lemma blank_lower:
  assumes "\<forall>c \<in> set text. isspace c"
  shows "lower text = text"
  using assms by (induction "text") (simp_all add: lower_def isspace_lower_char)

lemma blank_no_match:
  assumes "\<forall>c \<in> set text. isspace c" "\<not> isspace c0"
  shows "\<not> match_at (c0 # pat) (lower text) i"
proof
  assume "match_at (c0 # pat) (lower text) i"
  then have "c0 \<in> set (lower text)" by (rule match_at_in_set)
  then have "c0 \<in> set text" using blank_lower[OF assms(1)] by simp
  then show False using assms by blast
qed

lemma search_None_iff: "search P s = None \<longleftrightarrow> (\<forall>i \<le> length s. \<not> P s i)"
proof -
  have "set [0..<Suc (length s)] = {i. i \<le> length s}" by auto
  then show ?thesis by (simp add: search_def find_None_iff)
qed

lemma split_Nil: "split [] = []"
  by (simp add: split_def)

lemma abstract_text_no_marker:
  assumes "\<forall>i. \<not> match_at (str ''abstract'') (lower text) i"
  shows "abstract_text text = []"
proof -
  have "search abstract_start_pattern (lower text) = None"
    using assms by (simp add: search_None_iff abstract_start_pattern_def)
  then show ?thesis by (simp add: abstract_text_def)
qed

lemma intro_text_no_marker:
  assumes "\<forall>i. \<not> match_at (str ''introduction'') (lower text) i"
  shows "intro_text text = []"
proof -
  have "search intro_start_pattern (lower text) = None"
    using assms by (simp add: search_None_iff intro_start_pattern_def)
  then show ?thesis by (simp add: intro_text_def)
qed

lemma abstract_intro_no_marker:
  assumes "\<forall>i. \<not> match_at (str ''abstract'') (lower text) i"
    "\<forall>i. \<not> match_at (str ''introduction'') (lower text) i"
  shows "abstract_intro text = []"
  by (simp add: abstract_intro_def abstract_text_no_marker[OF assms(1)]
      intro_text_no_marker[OF assms(2)])

lemma not_isspace_a: "\<not> isspace (of_char CHR ''a'')"
  by (simp add: isspace_def)

lemma not_isspace_i: "\<not> isspace (of_char CHR ''i'')"
  by (simp add: isspace_def)

lemma blank_abstract_intro:
  assumes "strip text = []"
  shows "abstract_intro text = []"
proof -
  have b: "\<forall>c \<in> set text. isspace c" using assms by (simp add: strip_empty_iff)
  have "\<forall>i. \<not> match_at (str ''abstract'') (lower text) i"
    using blank_no_match[OF b not_isspace_a] by (simp add: str_def)
  moreover have "\<forall>i. \<not> match_at (str ''introduction'') (lower text) i"
    using blank_no_match[OF b not_isspace_i] by (simp add: str_def)
  ultimately show ?thesis by (rule abstract_intro_no_marker)
qed





section \<open>The two excerpts\<close>

lemma segment_full_text:
  "full_text (segment text) = (if strip text = [] then None else Some (clean_full_text text))"
  by (simp add: segment_def Let_def)

lemma segment_best_text:
  "best_text (segment text) =
     (if strip text = [] \<or> length (split (abstract_intro text)) < 100 then None
      else Some (abstract_intro text))"
  by (simp add: segment_def Let_def)



text \<open>
  C6: the focused excerpt is absent exactly when the text put together from the abstract
  and the introduction has fewer than 100 words; with 100 words or more it is that text.
  A raw text in which neither word occurs has no focused excerpt.
\<close>

theorem focused_excerpt_absent_iff_short:
  "(best_text (segment text) = None \<longleftrightarrow> length (split (abstract_intro text)) < 100) \<and>
   (100 \<le> length (split (abstract_intro text)) \<longrightarrow>
      best_text (segment text) = Some (abstract_intro text)) \<and>
   ((\<forall>i. \<not> match_at (str ''abstract'') (lower text) i) \<and>
    (\<forall>i. \<not> match_at (str ''introduction'') (lower text) i) \<longrightarrow> best_text (segment text) = None)"
proof -
  have blank: "strip text = [] \<Longrightarrow> length (split (abstract_intro text)) < 100"
    by (simp add: blank_abstract_intro split_Nil)
  have a: "best_text (segment text) = None \<longleftrightarrow> length (split (abstract_intro text)) < 100"
    using blank by (auto simp: segment_best_text)
  have b: "100 \<le> length (split (abstract_intro text)) \<longrightarrow>
      best_text (segment text) = Some (abstract_intro text)"
    using blank by (auto simp: segment_best_text)
  have c: "(\<forall>i. \<not> match_at (str ''abstract'') (lower text) i) \<and>
    (\<forall>i. \<not> match_at (str ''introduction'') (lower text) i) \<longrightarrow> best_text (segment text) = None"
  proof
    assume "(\<forall>i. \<not> match_at (str ''abstract'') (lower text) i) \<and>
      (\<forall>i. \<not> match_at (str ''introduction'') (lower text) i)"
    then have "abstract_intro text = []" using abstract_intro_no_marker by blast
    then show "best_text (segment text) = None" by (simp add: segment_best_text split_Nil)
  qed
  show ?thesis by (intro conjI a b c)
qed

section \<open>The records of the database\<close>

lemma strip_Nil: "strip [] = []"
  by (simp add: strip_def)

lemma clean_full_text_empty_iff:
  assumes "text \<noteq> []"
  shows "clean_full_text text = [] \<longleftrightarrow>
         heading_at text 0 \<and> (\<forall>j. 0 < j \<longrightarrow> \<not> heading_at text j)"
proof
  assume "heading_at text 0 \<and> (\<forall>j. 0 < j \<longrightarrow> \<not> heading_at text j)"
  then have "clean_full_text text = take 0 text"
    using clean_full_text_last_heading by blast
  then show "clean_full_text text = []" by simp
next
  assume e: "clean_full_text text = []"
  let ?r = "rfind (lower text) (newline # str ''references'')"
  let ?b = "rfind (lower text) (newline # str ''bibliography'')"
  have m: "max ?r ?b \<noteq> - 1 \<and> take (nat (max ?r ?b)) text = []"
    using e assms by (auto simp: clean_full_text_def Let_def split: if_splits)
  then have "nat (max ?r ?b) = 0" using assms by simp
  moreover have "- 1 \<le> ?r" "- 1 \<le> ?b"
    using rfind_from_range by (simp_all add: rfind_def)
  ultimately have z: "max ?r ?b = 0" using m by arith
  have later: "\<forall>j. 0 < j \<longrightarrow> \<not> heading_at text j"
  proof (intro allI impI notI)
    fix j :: nat assume j: "0 < j" and h: "heading_at text j"
    from h have "int j \<le> ?r \<or> int j \<le> ?b"
      unfolding heading_at_def using rfind_ge_match by blast
    then show False using z j by arith
  qed
  have "?r = 0 \<or> ?b = 0" using z by (auto simp: max_def split: if_splits)
  then have "heading_at text 0"
  proof
    assume "?r = 0"
    then have "?r = int 0" by simp
    from rfind_some[OF _ this] show ?thesis by (simp add: heading_at_def)
  next
    assume "?b = 0"
    then have "?b = int 0" by simp
    from rfind_some[OF _ this] show ?thesis by (simp add: heading_at_def)
  qed
  then show "heading_at text 0 \<and> (\<forall>j. 0 < j \<longrightarrow> \<not> heading_at text j)"
    using later by blast
qed

lemma make_record_author: "author (make_record encode pdf_path) = parent_name pdf_path"
  by (simp add: make_record_def Let_def)

lemma make_record_unreadable:
  assumes "content pdf_path = None"
  shows "best_text_embedding (make_record encode pdf_path) = None \<and>
         full_text_embedding (make_record encode pdf_path) = None"
  using assms by (simp add: make_record_def Let_def extract_multivector_text_def embed_text_def)

lemma make_record_full:
  assumes "content pdf_path = Some pages" "strip (page_texts pages) \<noteq> []"
  shows "full_text_embedding (make_record encode pdf_path) =
         (if clean_full_text (page_texts pages) = [] then None
          else Some (encode (clean_full_text (page_texts pages))))"
  using assms
  by (simp add: make_record_def Let_def extract_multivector_text_def embed_text_def
      segment_full_text)

lemma make_record_best:
  assumes "content pdf_path = Some pages"
  shows "best_text_embedding (make_record encode pdf_path) =
         (if length (split (abstract_intro (page_texts pages))) < 100 then None
          else Some (encode (abstract_intro (page_texts pages))))"
proof (cases "length (split (abstract_intro (page_texts pages))) < 100")
  case True
  then have "best_text (segment (page_texts pages)) = None"
    by (simp add: segment_best_text)
  then show ?thesis using assms True
    by (simp add: make_record_def Let_def extract_multivector_text_def embed_text_def)
next
  case False
  then have ne: "abstract_intro (page_texts pages) \<noteq> []" by (auto simp: split_Nil)
  have "strip (page_texts pages) \<noteq> []"
    using False blank_abstract_intro[of "page_texts pages"] by (auto simp: split_Nil)
  then have "best_text (segment (page_texts pages)) = Some (abstract_intro (page_texts pages))"
    using False by (simp add: segment_best_text)
  then show ?thesis using assms False ne
    by (simp add: make_record_def Let_def extract_multivector_text_def embed_text_def)
qed

text \<open>
  C3, as the code has it: for a document that was read and whose raw text is not blank,
  the record lacks the embedding of the full text exactly when the raw text begins with
  its only heading, and lacks the embedding of the focused excerpt exactly when that
  excerpt has fewer than 100 words. When the raw text does not begin with a heading, the
  embedding of the full text is present.
\<close>

theorem record_embedding_presence:
  assumes "content pdf_path = Some pages" "strip (page_texts pages) \<noteq> []"
  shows "(full_text_embedding (make_record encode pdf_path) = None \<longleftrightarrow>
            heading_at (page_texts pages) 0 \<and>
            (\<forall>j. 0 < j \<longrightarrow> \<not> heading_at (page_texts pages) j)) \<and>
         (best_text_embedding (make_record encode pdf_path) = None \<longleftrightarrow>
            length (split (abstract_intro (page_texts pages))) < 100) \<and>
         (\<not> heading_at (page_texts pages) 0 \<longrightarrow>
            full_text_embedding (make_record encode pdf_path) \<noteq> None)"
proof -
  have ne: "page_texts pages \<noteq> []" using assms(2) strip_Nil by auto
  have f: "full_text_embedding (make_record encode pdf_path) = None \<longleftrightarrow>
            heading_at (page_texts pages) 0 \<and>
            (\<forall>j. 0 < j \<longrightarrow> \<not> heading_at (page_texts pages) j)"
    using clean_full_text_empty_iff[OF ne] by (simp add: make_record_full[OF assms])
  have b: "best_text_embedding (make_record encode pdf_path) = None \<longleftrightarrow>
            length (split (abstract_intro (page_texts pages))) < 100"
    by (simp add: make_record_best[OF assms(1)])
  have c: "\<not> heading_at (page_texts pages) 0 \<longrightarrow>
            full_text_embedding (make_record encode pdf_path) \<noteq> None"
    using f by blast
  show ?thesis by (intro conjI f b c)
qed

lemma process_pdfs_map:
  "process_pdfs encode pdf_files database_records =
     database_records @ map (make_record encode) pdf_files"
  by (induction pdf_files arbitrary: database_records) simp_all

lemma count_records_by_author:
  "length (filter (\<lambda>r. author r = a) (map (make_record encode) pdf_files)) =
   length (filter (\<lambda>p. parent_name p = a) pdf_files)"
  by (induction pdf_files) (simp_all add: make_record_author)

text \<open>
  C7: the loop appends one record for each file, in order, under the name of the file's
  folder, so every author has as many records as files; a file that cannot be read gets a
  record without embeddings. When there is at least one file, these records are the
  database.
\<close>

theorem one_record_per_paper:
  "length (process_pdfs encode pdf_files []) = length pdf_files \<and>
   (\<forall>a. length (filter (\<lambda>r. author r = a) (process_pdfs encode pdf_files [])) =
         length (filter (\<lambda>p. parent_name p = a) pdf_files)) \<and>
   (\<forall>i < length pdf_files.
      author (process_pdfs encode pdf_files [] ! i) = parent_name (pdf_files ! i) \<and>
      (content (pdf_files ! i) = None \<longrightarrow>
         best_text_embedding (process_pdfs encode pdf_files [] ! i) = None \<and>
         full_text_embedding (process_pdfs encode pdf_files [] ! i) = None)) \<and>
   (pdf_files \<noteq> [] \<longrightarrow>
      build_multivector_database encode pdf_files = Some (process_pdfs encode pdf_files []))"
proof -
  have p: "process_pdfs encode pdf_files [] = map (make_record encode) pdf_files"
    by (simp add: process_pdfs_map)
  have l: "length (process_pdfs encode pdf_files []) = length pdf_files"
    by (simp add: p)
  have c: "\<forall>a. length (filter (\<lambda>r. author r = a) (process_pdfs encode pdf_files [])) =
         length (filter (\<lambda>p. parent_name p = a) pdf_files)"
    unfolding p by (intro allI count_records_by_author)
  have i: "\<forall>i < length pdf_files.
      author (process_pdfs encode pdf_files [] ! i) = parent_name (pdf_files ! i) \<and>
      (content (pdf_files ! i) = None \<longrightarrow>
         best_text_embedding (process_pdfs encode pdf_files [] ! i) = None \<and>
         full_text_embedding (process_pdfs encode pdf_files [] ! i) = None)"
    by (simp add: p make_record_author make_record_unreadable)
  have b: "pdf_files \<noteq> [] \<longrightarrow>
      build_multivector_database encode pdf_files = Some (process_pdfs encode pdf_files [])"
    by (simp add: build_multivector_database_def)
  show ?thesis by (intro conjI l c i b)
qed

section \<open>Texts of a given number of words\<close>

lemma no_match_not_in_set: "c \<notin> set s \<Longrightarrow> \<not> match_at (c # pat) s i"
  using match_at_in_set by blast

lemma set_abstract_words: "set (abstract_words n) \<subseteq> set (str ''abstract w'')"
  by (induction n) (auto simp: abstract_words_def str_def)

lemma lower_char_fixed:
  "c \<in> set (str ''abstract w'') \<Longrightarrow> lower_char c = [c]"
  by (auto simp: lower_char_def lower_code_def str_def)

lemma lower_fixed:
  assumes "\<forall>c \<in> set s. lower_char c = [c]"
  shows "lower s = s"
  using assms by (induction s) (simp_all add: lower_def)

lemma lower_abstract_words: "lower (abstract_words n) = abstract_words n"
  using set_abstract_words[of n] lower_char_fixed by (intro lower_fixed) blast

lemma split_from_words:
  "word \<noteq> [] \<Longrightarrow> split_from word (concat (replicate n (str '' w''))) = word # replicate n (str ''w'')"
proof (induction n arbitrary: word)
  case 0
  then show ?case by simp
next
  case (Suc n)
  have "split_from (str ''w'') (concat (replicate n (str '' w''))) = (str ''w'') # replicate n (str ''w'')"
    by (rule Suc.IH) (simp add: str_def)
  then show ?case using Suc.prems by (simp add: isspace_def replicate_append_same str_def)
qed

lemma split_abstract_words: "split (abstract_words n) = (str ''abstract'') # replicate n (str ''w'')"
proof -
  have "split (abstract_words n) = split_from (str ''abstract'') (concat (replicate n (str '' w'')))"
    by (simp add: split_def abstract_words_def isspace_def str_def)
  moreover have "str ''abstract'' \<noteq> []" by (simp add: str_def)
  ultimately show ?thesis by (simp add: split_from_words)
qed

lemma join_words:
  "join (str '' '') (word # replicate n (str ''w'')) = word @ concat (replicate n (str '' w''))"
proof (induction n arbitrary: word)
  case 0
  then show ?case by simp
next
  case (Suc n)
  have "join (str '' '') (word # replicate (Suc n) (str ''w'')) = word @ (str '' '') @ join (str '' '') ((str ''w'') # replicate n (str ''w''))"
    by simp
  then show ?case by (simp add: Suc.IH) (simp add: str_def)
qed

lemma search_at_0:
  assumes "P s 0"
  shows "search P s = Some 0"
proof -
  have "[0..<Suc (length s)] = 0 # [Suc 0..<Suc (length s)]"
    by (rule upt_conv_Cons) simp
  then show ?thesis using assms by (simp only: search_def find.simps if_True)
qed

lemma abstract_words_search_start:
  "search abstract_start_pattern (abstract_words n) = Some 0"
proof -
  have "abstract_start_pattern (abstract_words n) 0"
    by (simp add: abstract_start_pattern_def match_at_def abstract_words_def str_def)
  then show ?thesis by (rule search_at_0)
qed

lemma abstract_words_search_end:
  "search abstract_end_pattern (abstract_words n) = None"
proof -
  have "(of_char CHR ''i'') \<notin> set (abstract_words n)" "(of_char CHR ''k'') \<notin> set (abstract_words n)"
    "newline \<notin> set (abstract_words n)"
    using set_abstract_words[of n] by (auto simp: newline_def str_def)
  then show ?thesis
    by (simp add: search_None_iff abstract_end_pattern_def no_match_not_in_set str_def)
qed

lemma abstract_words_search_intro:
  "search intro_start_pattern (abstract_words n) = None"
proof -
  have "(of_char CHR ''i'') \<notin> set (abstract_words n)"
    using set_abstract_words[of n] by (auto simp: str_def)
  then show ?thesis
    by (simp add: search_None_iff intro_start_pattern_def no_match_not_in_set str_def)
qed

lemma abstract_intro_abstract_words:
  assumes "n < 500"
  shows "abstract_intro (abstract_words n) = abstract_words n"
proof -
  have "take 500 ((str ''abstract'') # replicate n (str ''w'')) = (str ''abstract'') # replicate n (str ''w'')"
    using assms by simp
  then have "abstract_text (abstract_words n) = abstract_words n"
    by (simp add: abstract_text_def lower_abstract_words abstract_words_search_start
        abstract_words_search_end split_abstract_words join_words)
       (simp add: abstract_words_def)
  moreover have "intro_text (abstract_words n) = []"
    by (simp add: intro_text_def lower_abstract_words abstract_words_search_intro)
  ultimately show ?thesis by (simp add: abstract_intro_def)
qed

lemma abstract_words_tokens:
  assumes "n < 500"
  shows "length (split (abstract_intro (abstract_words n))) = Suc n"
  by (simp add: abstract_intro_abstract_words[OF assms] split_abstract_words)
section \<open>Rounding to float64\<close>

lemma float64_eval:
  assumes "x \<noteq> 0" "2 powr of_int e \<le> \<bar>x\<bar>" "\<bar>x\<bar> < 2 powr (of_int e + 1)"
  shows "float64 x = of_int (round_half_even (x / 2 powr (of_int e - 52))) * 2 powr (of_int e - 52)"
proof -
  have "\<lfloor>log 2 \<bar>x\<bar>\<rfloor> = e" using assms by (simp add: floor_log_eq_powr_iff)
  then show ?thesis using assms(1) by (simp add: float64_def Let_def)
qed

lemma float64_0: "float64 0 = 0"
  by (simp add: float64_def)

lemma round_half_even_of_int: "round_half_even (of_int m) = m"
  by (simp add: round_half_even_def)

text \<open>A number with a significand of 53 bits is a float64.\<close>

lemma float64_exact:
  fixes m e :: int
  assumes "2 ^ 52 \<le> \<bar>m\<bar>" "\<bar>m\<bar> < 2 ^ 53"
  shows "float64 (of_int m * 2 powr (of_int e - 52)) = of_int m * 2 powr (of_int e - 52)"
proof -
  define u :: real where "u = 2 powr (of_int e - 52)"
  define x where "x = of_int m * u"
  have u: "0 < u" by (simp add: u_def)
  have "m \<noteq> 0" using assms(1) by auto
  then have x0: "x \<noteq> 0" using u by (simp add: x_def)
  have ax: "\<bar>x\<bar> = of_int \<bar>m\<bar> * u" using u by (simp add: x_def abs_mult)
  have e1: "2 powr of_int e = 2 ^ 52 * u"
    by (simp add: u_def powr_diff)
  have e2: "2 powr (of_int e + 1) = 2 ^ 53 * u"
    by (simp add: u_def powr_diff powr_add)
  have "(2::real) ^ 52 \<le> of_int \<bar>m\<bar>" using assms(1) by (metis of_int_le_iff of_int_numeral of_int_power)
  then have lo: "2 powr of_int e \<le> \<bar>x\<bar>" using u by (simp only: e1 ax mult_le_cancel_right_pos)
  have "of_int \<bar>m\<bar> < (2::real) ^ 53" using assms(2) by (metis of_int_less_iff of_int_numeral of_int_power)
  then have hi: "\<bar>x\<bar> < 2 powr (of_int e + 1)" using u by (simp only: e2 ax mult_less_cancel_right_pos)
  have "x / u = of_int m" using u by (simp add: x_def)
  then have "float64 x = of_int m * u"
    using float64_eval[OF x0 lo hi] by (simp only: u_def[symmetric] round_half_even_of_int)
  then show ?thesis by (simp only: x_def u_def)
qed

lemma float64_1: "float64 1 = 1"
  using float64_exact[of "2 ^ 52" 0] by (simp add: powr_minus_divide)

lemma float64_half: "float64 (1 / 2) = 1 / 2"
  using float64_exact[of "2 ^ 52" "- 1"] by (simp add: powr_minus_divide)


lemma float64_mean_0: "float64_mean [0] = 0"
  by (simp add: float64_mean_def Let_def float64_0)

lemma float64_mean_1: "float64_mean [1] = 1"
  by (simp add: float64_mean_def Let_def float64_0 float64_1)

lemma float64_mean_1_0: "float64_mean [1, 0] = 1 / 2"
  by (simp add: float64_mean_def Let_def float64_0 float64_1 float64_half)







section \<open>Instances of the engine\<close>

text \<open>
  The theorems above at concrete inputs, with \<open>pandas_float64\<close> for the sort and the mean.
  In every table below the values of \<open>max\<close> are distinct, so every descending sort gives
  the same order.
\<close>

lemmas engine_defs = find_similar_authors_def final_scores_def score_A_def score_B_def
  db_best_text_matrix_def db_full_text_matrix_def cosine_similarity_def dot_def
  normalize_vec_def row_norm_def zeros_def author_scores_def scores_of_def
  pandas_float64_def insertion_sort_values_def head_def Let_def
  float64_mean_0 float64_mean_1 float64_mean_1_0

lemma pandas_float64_descending: "descending_sort (sort_values pandas_float64)"
  by (simp add: pandas_float64_def insertion_sort_values_descending)

text \<open>
  C2 as stated fails: with two authors, the second one below the first, \<open>top_k = -1\<close>
  gives the table of the first author.
\<close>

theorem negative_top_k_counterexample:
  "find_similar_authors pandas_float64 [1] [1] 1
     [\<lparr>author = ''a'', paper = ''a__p1.pdf'', best_text_embedding = Some [1], full_text_embedding = None\<rparr>,
      \<lparr>author = ''a'', paper = ''a__p2.pdf'', best_text_embedding = None, full_text_embedding = None\<rparr>,
      \<lparr>author = ''b'', paper = ''b__p1.pdf'', best_text_embedding = None, full_text_embedding = None\<rparr>]
     (- 1)
   = Inr [\<lparr>author_col = ''a'', mean_col = 1 / 2, count_col = 2, max_col = 1\<rparr>]"
  by (simp add: engine_defs)

lemma example_well_formed:
  "well_formed [1] [1] 1
     [\<lparr>author = ''a'', paper = ''a__p1.pdf'', best_text_embedding = Some [1], full_text_embedding = None\<rparr>,
      \<lparr>author = ''a'', paper = ''a__p2.pdf'', best_text_embedding = None, full_text_embedding = None\<rparr>,
      \<lparr>author = ''b'', paper = ''b__p1.pdf'', best_text_embedding = None, full_text_embedding = None\<rparr>]"
  by (simp add: well_formed_def db_best_text_matrix_def db_full_text_matrix_def zeros_def)

lemma example_not_well_formed:
  "\<not> well_formed [1] [1] 1
     [\<lparr>author = ''a'', paper = ''a__p1.pdf'', best_text_embedding = Some [1, 0], full_text_embedding = None\<rparr>]"
  by (simp add: well_formed_def db_best_text_matrix_def db_full_text_matrix_def zeros_def)

lemma example_authors:
  "card (author `
     set [\<lparr>author = ''a'', paper = ''a__p1.pdf'', best_text_embedding = Some [1], full_text_embedding = None\<rparr>,
          \<lparr>author = ''a'', paper = ''a__p2.pdf'', best_text_embedding = None, full_text_embedding = None\<rparr>,
          \<lparr>author = ''b'', paper = ''b__p1.pdf'', best_text_embedding = None, full_text_embedding = None :: vec option\<rparr>]) = 2"
  by simp

text \<open>
  On the same database \<open>top_k = 0\<close> gives the empty table and \<open>top_k = -1\<close> one row; a
  database whose embedding has two components, asked with queries of one, raises.
\<close>

theorem top_k_nonpositive_witness:
  "find_similar_authors pandas_float64 [1] [1] 1
     [\<lparr>author = ''a'', paper = ''a__p1.pdf'', best_text_embedding = Some [1], full_text_embedding = None\<rparr>,
      \<lparr>author = ''a'', paper = ''a__p2.pdf'', best_text_embedding = None, full_text_embedding = None\<rparr>,
      \<lparr>author = ''b'', paper = ''b__p1.pdf'', best_text_embedding = None, full_text_embedding = None\<rparr>]
     0 = Inr [] \<and>
   (\<exists>rows. find_similar_authors pandas_float64 [1] [1] 1
     [\<lparr>author = ''a'', paper = ''a__p1.pdf'', best_text_embedding = Some [1], full_text_embedding = None\<rparr>,
      \<lparr>author = ''a'', paper = ''a__p2.pdf'', best_text_embedding = None, full_text_embedding = None\<rparr>,
      \<lparr>author = ''b'', paper = ''b__p1.pdf'', best_text_embedding = None, full_text_embedding = None\<rparr>]
     (- 1) = Inr rows \<and> length rows = 1) \<and>
   find_similar_authors pandas_float64 [1] [1] 1
     [\<lparr>author = ''a'', paper = ''a__p1.pdf'', best_text_embedding = Some [1, 0], full_text_embedding = None\<rparr>]
     0 = Inl ValueError"
  (is "find_similar_authors _ _ _ _ ?db _ = _ \<and> _ \<and> find_similar_authors _ _ _ _ ?bad _ = _")
proof -
  have z: "(0::int) \<le> 0" and m: "(- 1::int) \<le> 0" by simp_all
  note t0 = top_k_nonpositive[OF pandas_float64_descending z, of "[1]" "[1]" 1 ?db]
  note t1 = top_k_nonpositive[OF pandas_float64_descending m, of "[1]" "[1]" 1 ?db]
  note t2 = top_k_nonpositive[OF pandas_float64_descending z, of "[1]" "[1]" 1 ?bad]
  from t0 example_well_formed obtain rows0 where
    r0: "find_similar_authors pandas_float64 [1] [1] 1 ?db 0 = Inr rows0" and
    e0: "(0::int) = 0 \<longrightarrow> rows0 = []"
    by blast
  have a: "find_similar_authors pandas_float64 [1] [1] 1 ?db 0 = Inr []" using r0 e0 by simp
  from t1 example_well_formed obtain rows1 where
    r1: "find_similar_authors pandas_float64 [1] [1] 1 ?db (- 1) = Inr rows1" and
    l1: "length rows1 = (if (- 1::int) = 0 then 0 else card (author ` set ?db) - nat (- (- 1)))"
    by blast
  have "length rows1 = 1" by (simp only: l1 example_authors) simp
  then have b: "\<exists>rows. find_similar_authors pandas_float64 [1] [1] 1 ?db (- 1) = Inr rows \<and>
      length rows = 1"
    using r1 by blast
  have c: "find_similar_authors pandas_float64 [1] [1] 1 ?bad 0 = Inl ValueError"
    using t2 example_not_well_formed by blast
  show ?thesis by (intro conjI a b c)
qed

text \<open>
  With \<open>top_k = 1\<close> the first database gives one row, the row of the author with the
  greatest \<open>max\<close>; the second one raises.
\<close>

theorem top_k_rows_sorted_and_truncated_witness:
  "(\<exists>rows. find_similar_authors pandas_float64 [1] [1] 1
     [\<lparr>author = ''a'', paper = ''a__p1.pdf'', best_text_embedding = Some [1], full_text_embedding = None\<rparr>,
      \<lparr>author = ''a'', paper = ''a__p2.pdf'', best_text_embedding = None, full_text_embedding = None\<rparr>,
      \<lparr>author = ''b'', paper = ''b__p1.pdf'', best_text_embedding = None, full_text_embedding = None\<rparr>]
     1 = Inr rows \<and> length rows = 1 \<and> distinct (map author_col rows)) \<and>
   find_similar_authors pandas_float64 [1] [1] 1
     [\<lparr>author = ''a'', paper = ''a__p1.pdf'', best_text_embedding = Some [1, 0], full_text_embedding = None\<rparr>]
     1 = Inl ValueError"
  (is "(\<exists>rows. find_similar_authors _ _ _ _ ?db _ = _ \<and> _) \<and> find_similar_authors _ _ _ _ ?bad _ = _")
proof -
  have p: "(0::int) < 1" by simp
  note t0 = top_k_rows_sorted_and_truncated[OF pandas_float64_descending p, of "[1]" "[1]" 1 ?db]
  note t1 = top_k_rows_sorted_and_truncated[OF pandas_float64_descending p, of "[1]" "[1]" 1 ?bad]
  from t0 example_well_formed obtain rows where
    r: "find_similar_authors pandas_float64 [1] [1] 1 ?db 1 = Inr rows" and
    l: "length rows = min (nat 1) (card (author ` set ?db))" and
    d: "distinct (map author_col rows)"
    by blast
  have "length rows = 1" by (simp add: l example_authors)
  then have a: "\<exists>rows. find_similar_authors pandas_float64 [1] [1] 1 ?db 1 = Inr rows \<and>
      length rows = 1 \<and> distinct (map author_col rows)"
    using r d by blast
  have b: "find_similar_authors pandas_float64 [1] [1] 1 ?bad 1 = Inl ValueError"
    using t1 example_not_well_formed by blast
  show ?thesis by (intro conjI a b)
qed

text \<open>
  C8 as stated fails: on the empty database, which has fewer authors than \<open>top_k = 3\<close>,
  the call raises instead of returning no row.
\<close>

theorem empty_database_top_k_counterexample:
  "find_similar_authors pandas_float64 [1] [1] 1 [] 3 = Inl ValueError"
  by (simp add: find_similar_authors_def final_scores_empty)

text \<open>A record with an abstract only: its fused score is its score in the first search.\<close>

theorem fused_score_is_maximum_witness:
  "final_scores [1] [1] 1
     [\<lparr>author = ''a'', paper = ''a__p1.pdf'', best_text_embedding = Some [1],
       full_text_embedding = None\<rparr>] = Inr [1] \<and>
   (\<exists>sa sb.
      score_A [1] 1
        [\<lparr>author = ''a'', paper = ''a__p1.pdf'', best_text_embedding = Some [1],
          full_text_embedding = None\<rparr>] = Inr sa \<and>
      score_B [1] 1
        [\<lparr>author = ''a'', paper = ''a__p1.pdf'', best_text_embedding = Some [1],
          full_text_embedding = None\<rparr>] = Inr sb \<and>
      [1 :: real] ! 0 = max (sa ! 0) (sb ! 0))"
  (is "final_scores _ _ _ ?db = _ \<and> _")
proof -
  have h: "final_scores [1] [1] 1 ?db = Inr [1]" by (simp add: engine_defs)
  from fused_score_is_maximum[OF h] obtain sa sb where
    a: "score_A [1] 1 ?db = Inr sa" and b: "score_B [1] 1 ?db = Inr sb" and
    c: "\<forall>i < length ?db. [1 :: real] ! i = max (sa ! i) (sb ! i) \<and>
          sa ! i \<le> [1] ! i \<and> sb ! i \<le> [1] ! i"
    by blast
  have "(0::nat) < length ?db" by simp
  from c[rule_format, OF this] have "[1 :: real] ! 0 = max (sa ! 0) (sb ! 0)" by simp
  with h a b show ?thesis by blast
qed

text \<open>A record with a full text only: its score in the first search is 0.\<close>

theorem absent_best_text_scores_zero_witness:
  "\<exists>sa. score_A [1] 1
     [\<lparr>author = ''b'', paper = ''b__p1.pdf'', best_text_embedding = None,
       full_text_embedding = Some [1]\<rparr>] = Inr sa \<and> sa ! 0 = 0"
  (is "\<exists>sa. score_A _ _ ?db = _ \<and> _")
proof -
  have h: "score_A [1] 1 ?db = Inr [0]" by (simp add: engine_defs)
  have i: "(0::nat) < length ?db" by simp
  have n: "best_text_embedding (?db ! 0) = None" by simp
  from absent_best_text_scores_zero[OF h i n] have "[0 :: real] ! 0 = 0" by simp
  with h show ?thesis by blast
qed




section \<open>Instances of the segmentation and of the builder\<close>

text \<open>
  The builder is run with an encoder that returns the length of the text as a vector of
  one component.
\<close>



text \<open>
  With two capital I with a dot before the marker, the index found in the lowered text
  is two more than the index of the marker in the text: the line break and the first
  letter of the heading are kept.
\<close>

lemma dotted_capital_I_moves_the_cut:
  "clean_full_text ([0x130, 0x130] @ str ''\<newline>References'')
   = [0x130, 0x130] @ str ''\<newline>R''"
  by code_simp

text \<open>
  An excerpt of 99 words is absent and an excerpt of 100 words is present.
\<close>

theorem focused_excerpt_absent_iff_short_witness:
  "length (split (abstract_intro (abstract_words 98))) = 99 \<and>
   best_text (segment (abstract_words 98)) = None \<and>
   length (split (abstract_intro (abstract_words 99))) = 100 \<and>
   best_text (segment (abstract_words 99)) = Some (abstract_words 99)"
proof -
  have a: "length (split (abstract_intro (abstract_words 98))) = 99"
    by (simp add: abstract_words_tokens)
  have b: "length (split (abstract_intro (abstract_words 99))) = 100"
    by (simp add: abstract_words_tokens)
  have c: "abstract_intro (abstract_words 99) = abstract_words 99"
    by (simp add: abstract_intro_abstract_words)
  have "best_text (segment (abstract_words 98)) = None"
    using focused_excerpt_absent_iff_short[of "abstract_words 98"] a by simp
  moreover have "best_text (segment (abstract_words 99)) = Some (abstract_words 99)"
    using focused_excerpt_absent_iff_short[of "abstract_words 99"] b c by simp
  ultimately show ?thesis using a b by simp
qed

text \<open>A document of one page without heading: the full text is embedded.\<close>

theorem record_embedding_presence_witness:
  "strip (page_texts [str ''Hello world'']) \<noteq> [] \<and>
   full_text_embedding
     (make_record (replicate 1 \<circ> real \<circ> length)
        \<lparr>parent_name = ''alice'', stem = ''paper1'', content = Some [str ''Hello world'']\<rparr>) \<noteq> None"
  (is "_ \<and> full_text_embedding (make_record ?enc ?pdf) \<noteq> None")
proof -
  have a: "content ?pdf = Some [str ''Hello world'']" by simp
  have b: "strip (page_texts [str ''Hello world'']) \<noteq> []" by code_simp
  have c: "\<not> heading_at (page_texts [str ''Hello world'']) 0" by code_simp
  from record_embedding_presence[OF a b, of ?enc] c
  have "full_text_embedding (make_record ?enc ?pdf) \<noteq> None" by blast
  with b show ?thesis by blast
qed

text \<open>
  C3 as stated fails: a document with an empty first page and a second page that starts
  with the heading has a raw text that is not blank, and its record has no embedding.
\<close>

theorem heading_at_start_counterexample:
  "strip (page_texts [str '''', str ''References [1] A. Author'']) \<noteq> [] \<and>
   best_text_embedding
     (make_record (replicate 1 \<circ> real \<circ> length)
        \<lparr>parent_name = ''alice'', stem = ''paper1'',
         content = Some [str '''', str ''References [1] A. Author'']\<rparr>) = None \<and>
   full_text_embedding
     (make_record (replicate 1 \<circ> real \<circ> length)
        \<lparr>parent_name = ''alice'', stem = ''paper1'',
         content = Some [str '''', str ''References [1] A. Author'']\<rparr>) = None"
  by code_simp

text \<open>
  Of two files of an author the first cannot be read: the database has two records, the
  first without embeddings.
\<close>

theorem one_record_per_paper_witness:
  "build_multivector_database (replicate 1 \<circ> real \<circ> length)
     [\<lparr>parent_name = ''alice'', stem = ''broken'', content = None\<rparr>,
      \<lparr>parent_name = ''alice'', stem = ''paper1'', content = Some [str ''Hello world'']\<rparr>]
   = Some (process_pdfs (replicate 1 \<circ> real \<circ> length)
     [\<lparr>parent_name = ''alice'', stem = ''broken'', content = None\<rparr>,
      \<lparr>parent_name = ''alice'', stem = ''paper1'', content = Some [str ''Hello world'']\<rparr>] []) \<and>
   length (process_pdfs (replicate 1 \<circ> real \<circ> length)
     [\<lparr>parent_name = ''alice'', stem = ''broken'', content = None\<rparr>,
      \<lparr>parent_name = ''alice'', stem = ''paper1'', content = Some [str ''Hello world'']\<rparr>] []) = 2 \<and>
   best_text_embedding (process_pdfs (replicate 1 \<circ> real \<circ> length)
     [\<lparr>parent_name = ''alice'', stem = ''broken'', content = None\<rparr>,
      \<lparr>parent_name = ''alice'', stem = ''paper1'', content = Some [str ''Hello world'']\<rparr>] [] ! 0) = None \<and>
   full_text_embedding (process_pdfs (replicate 1 \<circ> real \<circ> length)
     [\<lparr>parent_name = ''alice'', stem = ''broken'', content = None\<rparr>,
      \<lparr>parent_name = ''alice'', stem = ''paper1'', content = Some [str ''Hello world'']\<rparr>] [] ! 0) = None"
  (is "build_multivector_database ?enc ?files = _ \<and> _")
proof -
  note t = one_record_per_paper[of ?enc ?files]
  have l: "length (process_pdfs ?enc ?files []) = length ?files" using t by (rule conjunct1)
  have i: "\<forall>i < length ?files.
      author (process_pdfs ?enc ?files [] ! i) = parent_name (?files ! i) \<and>
      (content (?files ! i) = None \<longrightarrow>
         best_text_embedding (process_pdfs ?enc ?files [] ! i) = None \<and>
         full_text_embedding (process_pdfs ?enc ?files [] ! i) = None)"
    using t by blast
  have b: "?files \<noteq> [] \<longrightarrow>
      build_multivector_database ?enc ?files = Some (process_pdfs ?enc ?files [])"
    using t by blast
  have z: "(0::nat) < length ?files" by simp
  have n: "content (?files ! 0) = None" by simp
  from i[rule_format, OF z] n
  have e: "best_text_embedding (process_pdfs ?enc ?files [] ! 0) = None \<and>
         full_text_embedding (process_pdfs ?enc ?files [] ! 0) = None" by blast
  have "build_multivector_database ?enc ?files = Some (process_pdfs ?enc ?files [])"
    using b by simp
  moreover have "length (process_pdfs ?enc ?files []) = 2" using l by simp
  ultimately show ?thesis using e by blast
qed

end
